theory Spec2Isabelle
  imports Complex_Main "HOL-Library.AList"
begin

section \<open>Python values and exceptions\<close>

text \<open>
  The exceptions that the modelled functions can raise. A function that can raise
  returns \<open>py_error + 'a\<close>, with \<open>Inl\<close> for the exception.
\<close>

datatype py_error = TypeError | KeyError | IndexError | ValueError | AttributeError

definition py_bind :: "py_error + 'a \<Rightarrow> ('a \<Rightarrow> py_error + 'b) \<Rightarrow> py_error + 'b" where
  "py_bind m f = (case m of Inl e \<Rightarrow> Inl e | Inr x \<Rightarrow> f x)"

text \<open>
  A list argument whose declared default is \<open>None\<close>: \<open>None\<close> is Python's \<open>None\<close>,
  \<open>Some xs\<close> a list of integers.
\<close>

type_synonym pylist = "int list option"

text \<open>Truth value of an optional integer: \<open>None\<close> and \<open>0\<close> are falsy.\<close>

definition truthy :: "int option \<Rightarrow> bool" where
  "truthy v = (case v of None \<Rightarrow> False | Some n \<Rightarrow> n \<noteq> 0)"

text \<open>Truth value of an optional list: \<open>None\<close> and \<open>[]\<close> are falsy.\<close>

definition truthy_list :: "pylist \<Rightarrow> bool" where
  "truthy_list v = (case v of None \<Rightarrow> False | Some xs \<Rightarrow> xs \<noteq> [])"

text \<open>\<open>any(xs)\<close>: \<open>TypeError\<close> on \<open>None\<close> (not iterable), else some element is non-zero.\<close>

definition py_any :: "pylist \<Rightarrow> py_error + bool" where
  "py_any v = (case v of None \<Rightarrow> Inl TypeError | Some xs \<Rightarrow> Inr (list_ex (\<lambda>x. x \<noteq> 0) xs))"

text \<open>\<open>min(xs)\<close> and \<open>max(xs)\<close>: \<open>TypeError\<close> on \<open>None\<close>, \<open>ValueError\<close> on \<open>[]\<close>.\<close>

definition py_min :: "pylist \<Rightarrow> py_error + int" where
  "py_min v = (case v of None \<Rightarrow> Inl TypeError | Some [] \<Rightarrow> Inl ValueError
               | Some (x # xs) \<Rightarrow> Inr (fold min xs x))"

definition py_max :: "pylist \<Rightarrow> py_error + int" where
  "py_max v = (case v of None \<Rightarrow> Inl TypeError | Some [] \<Rightarrow> Inl ValueError
               | Some (x # xs) \<Rightarrow> Inr (fold max xs x))"

text \<open>\<open>xs[-1]\<close>: \<open>IndexError\<close> on the empty list.\<close>

definition py_last :: "'a list \<Rightarrow> py_error + 'a" where
  "py_last xs = (case xs of [] \<Rightarrow> Inl IndexError | _ \<Rightarrow> Inr (last xs))"

text \<open>\<open>d[k]\<close> on a dict kept as an association list in insertion order.\<close>

definition py_getitem :: "('k \<times> 'v) list \<Rightarrow> 'k \<Rightarrow> py_error + 'v" where
  "py_getitem d k = (case map_of d k of None \<Rightarrow> Inl KeyError | Some v \<Rightarrow> Inr v)"

section \<open>The inventory (management/inventory.py)\<close>

subsection \<open>Data\<close>

text \<open>
  An event is a dict with some of the keys \<open>rss\<close>, \<open>otap\<close>, \<open>otap_max\<close>, \<open>otap_min\<close>.
  Each field is \<open>None\<close> when the key is absent and \<open>Some v\<close> when it holds \<open>v\<close>.
\<close>

record event =
  ev_rss :: "pylist option"
  ev_otap :: "pylist option"
  ev_otap_max :: "int option"
  ev_otap_min :: "int option"

text \<open>The per-node dict \<open>dict(last_seen=..., events=[...], count=...)\<close>.\<close>

record node_record =
  last_seen :: "int option"
  events :: "event list"
  count :: int

text \<open>\<open>_target_frequency\<close>: an integer, or \<open>math.inf\<close>.\<close>

datatype frequency_target = Finite int | Unbounded

text \<open>
  The attributes of \<open>Inventory\<close> that the modelled methods read or write. Times are
  \<open>datetime\<close> values, kept as integer microseconds. The set \<open>_target_nodes\<close> is kept
  as the list of its members in the order Python iterates over it; \<open>_index\<close> is a dict,
  kept as an association list in insertion order.
\<close>

record inventory =
  target_nodes :: "nat list"
  target_otap_sequence :: "int option"
  target_frequency :: frequency_target
  nodes :: "nat set"
  index :: "(nat \<times> node_record) list"
  start :: "int option"
  deadline :: "int option"
  finish :: "int option"
  otaped :: "nat set"
  runtime :: "rat option"

text \<open>\<open>__init__\<close>: missing target nodes become the empty set, a missing frequency \<open>math.inf\<close>.\<close>

definition init :: "nat list option \<Rightarrow> int option \<Rightarrow> int option \<Rightarrow> inventory" where
  "init tn tos tf =
     \<lparr>target_nodes = (case tn of None \<Rightarrow> [] | Some ns \<Rightarrow> ns),
      target_otap_sequence = tos,
      target_frequency = (case tf of None \<Rightarrow> Unbounded | Some f \<Rightarrow> Finite f),
      nodes = {}, index = [],
      start = None, deadline = None, finish = None,
      otaped = {}, runtime = None\<rparr>"

subsection \<open>add\<close>

text \<open>
  Lines 173-178: \<open>otap_min\<close> and \<open>otap_max\<close> stay \<open>None\<close> unless \<open>otap_sequence\<close> is truthy.
\<close>

definition otap_bounds :: "pylist \<Rightarrow> py_error + (int option \<times> int option)" where
  "otap_bounds otap_sequence =
     (if truthy_list otap_sequence
      then py_bind (py_min otap_sequence) (\<lambda>mn.
           py_bind (py_max otap_sequence) (\<lambda>mx. Inr (Some mn, Some mx)))
      else Inr (None, None))"

text \<open>
  Lines 180-198: the \<open>if\<close>/\<open>elif\<close> chain that builds the event. \<open>and\<close> is short-circuit:
  \<open>any(rss)\<close> is only evaluated in the first test when \<open>otap_min\<close> and \<open>otap_max\<close> are truthy.
\<close>

definition make_event :: "pylist \<Rightarrow> pylist \<Rightarrow> py_error + event" where
  "make_event rss otap_sequence =
     py_bind (otap_bounds otap_sequence) (\<lambda>(otap_min, otap_max).
     py_bind (if truthy otap_min \<and> truthy otap_max then py_any rss else Inr False) (\<lambda>c1.
     if c1 then
       py_bind (py_max otap_sequence) (\<lambda>mx.
       py_bind (py_min otap_sequence) (\<lambda>mn.
         Inr \<lparr>ev_rss = Some rss, ev_otap = Some otap_sequence,
              ev_otap_max = Some mx, ev_otap_min = Some mn\<rparr>))
     else
       py_bind (py_any rss) (\<lambda>c2.
       if c2 then
         Inr \<lparr>ev_rss = Some rss, ev_otap = None, ev_otap_max = None, ev_otap_min = None\<rparr>
       else
         py_bind (py_any otap_sequence) (\<lambda>c3.
         if c3 then
           py_bind (py_max otap_sequence) (\<lambda>mx.
           py_bind (py_min otap_sequence) (\<lambda>mn.
             Inr \<lparr>ev_rss = None, ev_otap = Some otap_sequence,
                  ev_otap_max = Some mx, ev_otap_min = Some mn\<rparr>))
         else
           Inr \<lparr>ev_rss = Some rss, ev_otap = Some otap_sequence,
                ev_otap_max = None, ev_otap_min = None\<rparr>))))"

text \<open>
  Lines 200-209: the \<open>try\<close> block raises \<open>KeyError\<close> on its first statement exactly when
  the address has no record yet; the handler then creates the record.
\<close>

definition store_event :: "(nat \<times> node_record) list \<Rightarrow> nat \<Rightarrow> int option \<Rightarrow> event
                             \<Rightarrow> (nat \<times> node_record) list" where
  "store_event idx node_address timestamp ev =
     (case py_getitem idx node_address of
        Inr details \<Rightarrow>
          AList.update node_address
            (details\<lparr>count := count details + 1, last_seen := timestamp,
                     events := events details @ [ev]\<rparr>) idx
      | Inl _ \<Rightarrow>
          AList.update node_address
            \<lparr>last_seen = timestamp, events = [ev], count = 1\<rparr> idx)"

text \<open>
  \<open>add\<close>: the address joins \<open>_nodes\<close> first (line 171); an exception raised while the
  event is built leaves the inventory in that state.
\<close>

definition add :: "inventory \<Rightarrow> nat \<Rightarrow> pylist \<Rightarrow> pylist \<Rightarrow> int option
                     \<Rightarrow> (py_error + unit) \<times> inventory" where
  "add s node_address rss otap_sequence timestamp =
     (let s1 = s\<lparr>nodes := insert node_address (nodes s)\<rparr> in
      case make_event rss otap_sequence of
        Inl e \<Rightarrow> (Inl e, s1)
      | Inr ev \<Rightarrow>
          (Inr (), s1\<lparr>index := store_event (index s1) node_address timestamp ev\<rparr>))"

text \<open>
  A sequence of \<open>add\<close> calls made by the driver of one session, each call an
  (address, rss, otap_sequence, timestamp) tuple. A call that raises leaves the
  inventory as the exception found it and the driver goes on; \<open>accepted_calls\<close> are
  the calls that returned normally.
\<close>

type_synonym add_call = "nat \<times> pylist \<times> pylist \<times> int option"

fun add_all :: "inventory \<Rightarrow> add_call list \<Rightarrow> inventory" where
  "add_all s [] = s"
| "add_all s ((a, rss, otap, ts) # cs) = add_all (snd (add s a rss otap ts)) cs"

fun accepted_calls :: "inventory \<Rightarrow> add_call list \<Rightarrow> add_call list" where
  "accepted_calls s [] = []"
| "accepted_calls s ((a, rss, otap, ts) # cs) =
     (case add s a rss otap ts of
        (Inr _, s') \<Rightarrow> (a, rss, otap, ts) # accepted_calls s' cs
      | (Inl _, s') \<Rightarrow> accepted_calls s' cs)"

text \<open>The count recorded for an address; an address with no record counts as 0.\<close>

definition count_of :: "inventory \<Rightarrow> nat \<Rightarrow> int" where
  "count_of s a = (case map_of (index s) a of None \<Rightarrow> 0 | Some r \<Rightarrow> count r)"

subsection \<open>Time\<close>

text \<open>
  \<open>datetime.utcnow()\<close> is the argument \<open>now\<close>. \<open>total_seconds()\<close> of a difference of
  two datetimes is the difference in microseconds over \<open>10^6\<close>; a difference with
  \<open>None\<close> raises \<open>TypeError\<close>.
\<close>

definition total_seconds :: "int \<Rightarrow> rat" where
  "total_seconds td = of_int td / 1000000"

definition until :: "int option \<Rightarrow> int \<Rightarrow> py_error + rat" where
  "until dl now = (case dl of None \<Rightarrow> Inl TypeError | Some d \<Rightarrow> Inr (total_seconds (d - now)))"

definition is_out_of_time :: "inventory \<Rightarrow> int \<Rightarrow> py_error + bool" where
  "is_out_of_time s now =
     py_bind (until (deadline s) now) (\<lambda>time_left.
       if time_left \<le> 0 then Inr True else Inr False)"

text \<open>The property \<open>elapsed\<close>: reads the clock or \<open>_finish\<close>, and stores \<open>_runtime\<close>.\<close>

definition elapsed :: "inventory \<Rightarrow> int \<Rightarrow> (py_error + rat) \<times> inventory" where
  "elapsed s now =
     (let rt = (case finish s of Some f \<Rightarrow> f | None \<Rightarrow> now) in
      case start s of
        None \<Rightarrow> (Inl TypeError, s)
      | Some st \<Rightarrow> (Inr (total_seconds (rt - st)), s\<lparr>runtime := Some (total_seconds (rt - st))\<rparr>))"

subsection \<open>Predicates\<close>

text \<open>\<open>self._target_frequency < math.inf\<close>.\<close>

definition below_inf :: "frequency_target \<Rightarrow> bool" where
  "below_inf t = (case t of Finite _ \<Rightarrow> True | Unbounded \<Rightarrow> False)"

text \<open>
  \<open>is_complete\<close>. The branch that reports missing nodes formats \<open>self.elapsed\<close> into the
  log message before it returns \<open>False\<close>.
\<close>

definition is_complete :: "inventory \<Rightarrow> int \<Rightarrow> (py_error + bool) \<times> inventory" where
  "is_complete s now =
     (if target_nodes s = [] \<or> below_inf (target_frequency s) then (Inr False, s)
      else if set (target_nodes s) \<subseteq> nodes s then
        (if \<not> truthy (target_otap_sequence s) then (Inr True, s) else (Inr False, s))
      else
        (case elapsed s now of
           (Inl e, s') \<Rightarrow> (Inl e, s')
         | (Inr _, s') \<Rightarrow> (Inr False, s')))"

text \<open>
  The test of the property \<open>otaped_nodes\<close> on one record (lines 338-343): both
  subscripts can raise \<open>KeyError\<close>, \<open>events[-1]\<close> can raise \<open>IndexError\<close>; \<open>or\<close> is
  short-circuit.
\<close>

definition otaped_test :: "int option \<Rightarrow> node_record \<Rightarrow> py_error + bool" where
  "otaped_test target details =
     py_bind (py_last (events details)) (\<lambda>ev.
       case ev_otap_min ev of
         None \<Rightarrow> Inl KeyError
       | Some mn \<Rightarrow>
           if Some mn = target then Inr True
           else py_bind (py_last (events details)) (\<lambda>ev2.
             case ev_otap_max ev2 of
               None \<Rightarrow> Inl KeyError
             | Some mx \<Rightarrow> Inr (Some mx = target)))"

text \<open>
  The loop of \<open>otaped_nodes\<close> over \<open>_index.items()\<close>: \<open>KeyError\<close> is caught and the node
  skipped; any other exception leaves the loop with the set built so far.
\<close>

fun otaped_nodes_loop :: "int option \<Rightarrow> (nat \<times> node_record) list \<Rightarrow> nat set
                            \<Rightarrow> py_error option \<times> nat set" where
  "otaped_nodes_loop target [] acc = (None, acc)"
| "otaped_nodes_loop target ((node_address, details) # rest) acc =
     (case otaped_test target details of
        Inr True \<Rightarrow> otaped_nodes_loop target rest (insert node_address acc)
      | Inr False \<Rightarrow> otaped_nodes_loop target rest acc
      | Inl KeyError \<Rightarrow> otaped_nodes_loop target rest acc
      | Inl e \<Rightarrow> (Some e, acc))"

definition otaped_nodes :: "inventory \<Rightarrow> (py_error + nat set) \<times> inventory" where
  "otaped_nodes s =
     (case otaped_nodes_loop (target_otap_sequence s) (index s) {} of
        (None, acc) \<Rightarrow> (Inr acc, s\<lparr>otaped := acc\<rparr>)
      | (Some e, acc) \<Rightarrow> (Inl e, s\<lparr>otaped := acc\<rparr>))"

text \<open>
  \<open>is_otaped\<close>. The reporting branch formats \<open>self.elapsed\<close> and then reads the property
  \<open>otaped_nodes\<close> a second time before it returns \<open>False\<close>.
\<close>

definition is_otaped :: "inventory \<Rightarrow> int \<Rightarrow> (py_error + bool) \<times> inventory" where
  "is_otaped s now =
     (if target_nodes s = [] \<or> target_otap_sequence s = None then (Inr False, s)
      else
        case otaped_nodes s of
          (Inl e, s1) \<Rightarrow> (Inl e, s1)
        | (Inr os, s1) \<Rightarrow>
            if \<not> set (target_nodes s1) \<subseteq> os then
              (case elapsed s1 now of
                 (Inl e, s2) \<Rightarrow> (Inl e, s2)
               | (Inr _, s2) \<Rightarrow>
                   (case otaped_nodes s2 of
                      (Inl e, s3) \<Rightarrow> (Inl e, s3)
                    | (Inr _, s3) \<Rightarrow> (Inr False, s3)))
            else (Inr True, s1))"

subsection \<open>Frequencies\<close>

text \<open>
  The value \<open>frequency\<close> and \<open>frequency_by_value\<close> compute for one node (lines 355-358
  and 371-374): the \<open>otap_max\<close> of the latest event when \<open>_target_otap_sequence\<close> is
  truthy, the count otherwise.
\<close>

definition frequency_value :: "int option \<Rightarrow> (nat \<times> node_record) list \<Rightarrow> nat \<Rightarrow> py_error + int" where
  "frequency_value target idx node =
     (if truthy target then
        py_bind (py_getitem idx node) (\<lambda>details.
        py_bind (py_last (events details)) (\<lambda>ev.
          case ev_otap_max ev of None \<Rightarrow> Inl KeyError | Some v \<Rightarrow> Inr v))
      else
        py_bind (py_getitem idx node) (\<lambda>details. Inr (count details)))"

fun frequency_loop :: "int option \<Rightarrow> (nat \<times> node_record) list \<Rightarrow> nat list \<Rightarrow> (nat \<times> int) list
                         \<Rightarrow> py_error + (nat \<times> int) list" where
  "frequency_loop target idx [] freq = Inr freq"
| "frequency_loop target idx (node # rest) freq =
     py_bind (frequency_value target idx node) (\<lambda>v.
       frequency_loop target idx rest (AList.update node v freq))"

text \<open>\<open>_account_for_target_nodes\<close>: mutates the dict it is given.\<close>

definition account_for_target_nodes :: "inventory \<Rightarrow> (nat \<times> int) list \<Rightarrow> (nat \<times> int) list" where
  "account_for_target_nodes s d =
     (if target_nodes s \<noteq> [] then
        fold (\<lambda>node d'. if map_of d' node = None then AList.update node 0 d' else d')
          (target_nodes s) d
      else d)"

definition frequency :: "inventory \<Rightarrow> py_error + (nat \<times> int) list" where
  "frequency s =
     py_bind (frequency_loop (target_otap_sequence s) (index s) (sort (map fst (index s))) [])
       (\<lambda>freq. Inr (account_for_target_nodes s freq))"

text \<open>
  \<open>_filter_dict\<close>: \<open>d[k]\<close> is read for a key \<open>k\<close> that the loop takes from \<open>d.items()\<close>,
  so it is the value of the item visited.
\<close>

definition filter_dict :: "inventory \<Rightarrow> (nat \<times> int) list \<Rightarrow> (nat \<times> int) list" where
  "filter_dict s d =
     fold (\<lambda>(k, v) w. if k \<in> set (target_nodes s) then AList.update k v w else w) d []"

text \<open>\<open>x >= self._target_frequency\<close> for an integer \<open>x\<close>.\<close>

definition reaches :: "int \<Rightarrow> frequency_target \<Rightarrow> bool" where
  "reaches x t = (case t of Finite f \<Rightarrow> f \<le> x | Unbounded \<Rightarrow> False)"

text \<open>
  \<open>is_frequency_reached\<close>. \<open>_target_frequency\<close> is never \<open>None\<close> after \<open>__init__\<close>, so the
  first test is the emptiness of \<open>_target_nodes\<close>.
\<close>

definition is_frequency_reached :: "inventory \<Rightarrow> py_error + bool" where
  "is_frequency_reached s =
     (if target_nodes s = [] then Inr False
      else
        py_bind (frequency s) (\<lambda>freq.
          let freq' = (if target_nodes s \<noteq> [] then filter_dict s freq else freq)
          in Inr (list_all (\<lambda>x. reaches x (target_frequency s)) (map snd freq'))))"

text \<open>\<open>"{0:03}".format(key)\<close> for an integer: decimal, sign first, zero-padded to width 3.\<close>

fun decimal :: "nat \<Rightarrow> string" where
  "decimal n = (if n < 10 then [''0123456789'' ! n]
                else decimal (n div 10) @ [''0123456789'' ! (n mod 10)])"

definition zero_pad :: "nat \<Rightarrow> string \<Rightarrow> string" where
  "zero_pad w str = replicate (w - length str) (CHR ''0'') @ str"

definition format_03 :: "int \<Rightarrow> string" where
  "format_03 key = (if key < 0 then CHR ''-'' # zero_pad 2 (decimal (nat (- key)))
                    else zero_pad 3 (decimal (nat key)))"

text \<open>
  The first loop of \<open>frequency_by_value\<close>: groups the nodes by value; \<open>max_value\<close> is
  maintained and never read afterwards.
\<close>

fun frequency_by_value_loop :: "int option \<Rightarrow> (nat \<times> node_record) list \<Rightarrow> nat list
                                  \<Rightarrow> (int \<times> nat set) list \<Rightarrow> int
                                  \<Rightarrow> py_error + ((int \<times> nat set) list \<times> int)" where
  "frequency_by_value_loop target idx [] freq max_value = Inr (freq, max_value)"
| "frequency_by_value_loop target idx (node # rest) freq max_value =
     py_bind (frequency_value target idx node) (\<lambda>v.
       frequency_by_value_loop target idx rest
         (case map_of freq v of
            None \<Rightarrow> AList.update v {node} freq
          | Some ns \<Rightarrow> AList.update v (insert node ns) freq)
         (if v > max_value then v else max_value))"

text \<open>The second loop: the \<open>OrderedDict\<close> keyed by the formatted values, ascending.\<close>

fun ofreq_loop :: "(int \<times> nat set) list \<Rightarrow> int list \<Rightarrow> (string \<times> nat set) list
                     \<Rightarrow> py_error + (string \<times> nat set) list" where
  "ofreq_loop freq [] ofreq = Inr ofreq"
| "ofreq_loop freq (key # rest) ofreq =
     py_bind (py_getitem freq key) (\<lambda>ns.
       ofreq_loop freq rest (AList.update (''frequency_'' @ format_03 key) ns ofreq))"

definition frequency_by_value :: "inventory \<Rightarrow> py_error + (string \<times> nat set) list" where
  "frequency_by_value s =
     py_bind (frequency_by_value_loop (target_otap_sequence s) (index s)
                (sort (map fst (index s))) [] 0)
       (\<lambda>(freq, max_value). ofreq_loop freq (sort (map fst freq)) [])"

section \<open>The MySQL observer (api/mysql/handlers.py)\<close>

subsection \<open>Message routing\<close>

text \<open>The seven message classes that \<open>_map_message\<close> tests with \<open>isinstance\<close>.\<close>

datatype message_class =
    DiagnosticsMessage | AdvertiserMessage | TestNWMessage | BootDiagnosticsMessage
  | NeighborDiagnosticsMessage | NodeDiagnosticsMessage | TrafficDiagnosticsMessage

text \<open>The write operations of the MySQL connector that \<open>_map_message\<close> calls.\<close>

datatype mysql_write =
    put_to_received_packets | put_diagnostics | put_advertiser | put_testnw_measurements
  | put_boot_diagnostics | put_neighbor_diagnostics | put_node_diagnostics
  | put_traffic_diagnostics

text \<open>
  \<open>_map_message\<close>. The message classes and the connector are declared outside this
  file, so \<open>isinstance\<close> (which class tests a message passes) and \<open>put\<close> (what a write
  does to the connection, or the exception it raises) are arguments.
\<close>

definition map_message :: "('m \<Rightarrow> message_class \<Rightarrow> bool) \<Rightarrow> (mysql_write \<Rightarrow> 'm \<Rightarrow> 'db \<Rightarrow> 'e + 'db)
                             \<Rightarrow> 'db \<Rightarrow> 'm \<Rightarrow> 'e + 'db" where
  "map_message isinstance put mysql message =
     (case put put_to_received_packets message mysql of
        Inl e \<Rightarrow> Inl e
      | Inr db \<Rightarrow>
          if isinstance message DiagnosticsMessage then put put_diagnostics message db
          else if isinstance message AdvertiserMessage then put put_advertiser message db
          else if isinstance message TestNWMessage then put put_testnw_measurements message db
          else if isinstance message BootDiagnosticsMessage then put put_boot_diagnostics message db
          else if isinstance message NeighborDiagnosticsMessage
            then put put_neighbor_diagnostics message db
          else if isinstance message NodeDiagnosticsMessage then put put_node_diagnostics message db
          else if isinstance message TrafficDiagnosticsMessage
            then put put_traffic_diagnostics message db
          else Inr db)"

text \<open>
  The routing as the specification words it: a fixed table from the kind of a work item
  to its write, looked up once after the generic write; \<open>kind_of\<close> gives the kind of an
  item, \<open>None\<close> for an item of no listed kind.
\<close>

definition handler_table :: "(message_class \<times> mysql_write) list" where
  "handler_table =
     [(AdvertiserMessage, put_advertiser),
      (BootDiagnosticsMessage, put_boot_diagnostics),
      (NeighborDiagnosticsMessage, put_neighbor_diagnostics),
      (NodeDiagnosticsMessage, put_node_diagnostics),
      (TestNWMessage, put_testnw_measurements),
      (TrafficDiagnosticsMessage, put_traffic_diagnostics),
      (DiagnosticsMessage, put_diagnostics)]"

definition spec_route :: "('m \<Rightarrow> message_class option) \<Rightarrow> (mysql_write \<Rightarrow> 'm \<Rightarrow> 'db \<Rightarrow> 'e + 'db)
                            \<Rightarrow> 'db \<Rightarrow> 'm \<Rightarrow> 'e + 'db" where
  "spec_route kind_of put mysql message =
     (case put put_to_received_packets message mysql of
        Inl e \<Rightarrow> Inl e
      | Inr db \<Rightarrow>
          (case kind_of message of
             None \<Rightarrow> Inr db
           | Some k \<Rightarrow>
               (case map_of handler_table k of
                  None \<Rightarrow> Inr db
                | Some w \<Rightarrow> put w message db)))"

text \<open>A connector that only records, in order, the writes issued on it; none fails.\<close>

datatype mysql_error = MySQLdb_Error

definition record_write :: "mysql_write \<Rightarrow> 'm \<Rightarrow> mysql_write list
                              \<Rightarrow> mysql_error + mysql_write list" where
  "record_write w message issued = Inr (issued @ [w])"

text \<open>
  The order in which \<open>_map_message\<close> puts its class tests (lines 92-104).
\<close>

definition chain_order :: "message_class list" where
  "chain_order =
     [DiagnosticsMessage, AdvertiserMessage, TestNWMessage, BootDiagnosticsMessage,
      NeighborDiagnosticsMessage, NodeDiagnosticsMessage, TrafficDiagnosticsMessage]"

text \<open>
  The routing by first match: after the generic write, the first class of
  \<open>chain_order\<close> whose test the message passes selects the write, through the same
  table; a message that passes no test gets the generic write only.
\<close>

definition first_match_route :: "('m \<Rightarrow> message_class \<Rightarrow> bool)
                                   \<Rightarrow> (mysql_write \<Rightarrow> 'm \<Rightarrow> 'db \<Rightarrow> 'e + 'db)
                                   \<Rightarrow> 'db \<Rightarrow> 'm \<Rightarrow> 'e + 'db" where
  "first_match_route isinstance put mysql message =
     (case put put_to_received_packets message mysql of
        Inl e \<Rightarrow> Inl e
      | Inr db \<Rightarrow>
          (case find (isinstance message) chain_order of
             None \<Rightarrow> Inr db
           | Some c \<Rightarrow>
               (case map_of handler_table c of
                  None \<Rightarrow> Inr db
                | Some w \<Rightarrow> put w message db)))"

subsection \<open>Supervision of the worker pool\<close>

text \<open>
  \<open>multiprocessing.Process(...).start()\<close> starts the child process and returns \<open>None\<close>;
  a process is named here by its sequence number.
\<close>

definition process_start :: "nat \<Rightarrow> nat option" where
  "process_start p = None"

text \<open>
  Lines 170-181 of \<open>pool_on_data_received\<close>: the dict \<open>workers\<close> maps each sequence
  number of \<open>range(1, n_workers)\<close> to what \<open>start()\<close> returned.
\<close>

definition spawn_workers :: "nat \<Rightarrow> (nat \<times> nat option) list" where
  "spawn_workers n_workers =
     fold (\<lambda>pseq workers. AList.update pseq (process_start pseq) workers) [1..<n_workers] []"

text \<open>
  One liveness poll of \<open>_wait_for_exit\<close> (the \<open>for\<close> loop): \<open>Inr True\<close> when it set
  \<open>exit_signal\<close>, \<open>Inr False\<close> when every worker was alive. Calling \<open>is_alive\<close> on \<open>None\<close>
  raises \<open>AttributeError\<close>.
\<close>

fun poll_workers :: "(nat \<Rightarrow> bool) \<Rightarrow> (nat \<times> nat option) list \<Rightarrow> py_error + bool" where
  "poll_workers is_alive [] = Inr False"
| "poll_workers is_alive ((seq, worker) # rest) =
     (case worker of
        None \<Rightarrow> Inl AttributeError
      | Some p \<Rightarrow> if is_alive p then poll_workers is_alive rest else Inr True)"

text \<open>
  \<open>_wait_for_exit\<close>. The loop can run for ever, so it takes fuel: \<open>None\<close> is "still
  polling when the fuel ran out". \<open>k\<close> counts the monitoring intervals slept so far;
  \<open>set_elsewhere k\<close> tells whether another process has set \<open>exit_signal\<close> by the \<open>k\<close>-th
  test of the loop condition, \<open>is_alive k\<close> which workers are alive at the poll that
  follows the \<open>k\<close>-th sleep. The result pairs how the method ended with whether this
  method set \<open>exit_signal\<close>.
\<close>

fun wait_for_exit :: "nat \<Rightarrow> (nat \<Rightarrow> bool) \<Rightarrow> (nat \<Rightarrow> nat \<Rightarrow> bool) \<Rightarrow> (nat \<times> nat option) list
                        \<Rightarrow> nat \<Rightarrow> bool \<Rightarrow> ((py_error + unit) \<times> bool) option" where
  "wait_for_exit 0 set_elsewhere is_alive workers k exit_set = None"
| "wait_for_exit (Suc fuel) set_elsewhere is_alive workers k exit_set =
     (if exit_set \<or> set_elsewhere k then Some (Inr (), exit_set)
      else if workers \<noteq> [] then
        (case poll_workers (is_alive k) workers of
           Inl e \<Rightarrow> Some (Inl e, exit_set)
         | Inr b \<Rightarrow> wait_for_exit fuel set_elsewhere is_alive workers (Suc k) b)
      else wait_for_exit fuel set_elsewhere is_alive workers (Suc k) exit_set)"

text \<open>The supervising part of \<open>pool_on_data_received\<close>: spawn, then wait.\<close>

definition pool_supervise :: "nat \<Rightarrow> (nat \<Rightarrow> bool) \<Rightarrow> (nat \<Rightarrow> nat \<Rightarrow> bool) \<Rightarrow> nat
                                \<Rightarrow> ((py_error + unit) \<times> bool) option" where
  "pool_supervise fuel set_elsewhere is_alive n_workers =
     wait_for_exit fuel set_elsewhere is_alive (spawn_workers n_workers) 0 False"

section \<open>Well-formed inventories\<close>

text \<open>
  The shape every inventory built by \<open>__init__\<close> and \<open>add\<close> has: the dict has one
  entry per key, the target set one member per element, every record holds at least
  one event, and an event has the key \<open>otap_min\<close> exactly when it has \<open>otap_max\<close>.
\<close>

definition wf_record :: "node_record \<Rightarrow> bool" where
  "wf_record r =
     (events r \<noteq> [] \<and>
      list_all (\<lambda>ev. (ev_otap_min ev = None) = (ev_otap_max ev = None)) (events r))"

definition wf_inventory :: "inventory \<Rightarrow> bool" where
  "wf_inventory s =
     (distinct (map fst (index s)) \<and> distinct (target_nodes s) \<and>
      list_all (\<lambda>(a, r). wf_record r) (index s))"

section \<open>The predicates as the specification words them\<close>

text \<open>
  \<open>is_complete\<close> as specified: targets given, no finite frequency target, no OTAP
  target set, and every target node observed.
\<close>

definition spec_is_complete :: "inventory \<Rightarrow> bool" where
  "spec_is_complete s =
     (target_nodes s \<noteq> [] \<and> target_frequency s = Unbounded \<and>
      target_otap_sequence s = None \<and> set (target_nodes s) \<subseteq> nodes s)"

text \<open>The same, with an OTAP target of 0 counted like a missing one.\<close>

definition plain_coverage :: "inventory \<Rightarrow> bool" where
  "plain_coverage s =
     (target_nodes s \<noteq> [] \<and> target_frequency s = Unbounded \<and>
      (target_otap_sequence s = None \<or> target_otap_sequence s = Some 0) \<and>
      set (target_nodes s) \<subseteq> nodes s)"

text \<open>The latest event of a record carries the target as its \<open>otap_min\<close> or \<open>otap_max\<close>.\<close>

definition latest_matches :: "int option \<Rightarrow> node_record \<Rightarrow> bool" where
  "latest_matches target r =
     (ev_otap_min (last (events r)) = target \<or> ev_otap_max (last (events r)) = target)"

text \<open>
  \<open>is_otaped\<close> as specified: targets given, an OTAP target set, and the latest event
  of every target node matches it.
\<close>

definition spec_is_otaped :: "inventory \<Rightarrow> bool" where
  "spec_is_otaped s =
     (target_nodes s \<noteq> [] \<and> target_otap_sequence s \<noteq> None \<and>
      list_all (\<lambda>n. case map_of (index s) n of
                       None \<Rightarrow> False
                     | Some r \<Rightarrow> latest_matches (target_otap_sequence s) r)
        (target_nodes s))"

text \<open>
  The frequency value of a record as specified: the \<open>otap_max\<close> of its latest event when
  an OTAP target is in force, its count otherwise; \<open>None\<close> when that event has no
  \<open>otap_max\<close>.
\<close>

definition node_frequency :: "inventory \<Rightarrow> node_record \<Rightarrow> int option" where
  "node_frequency s r =
     (if truthy (target_otap_sequence s) then ev_otap_max (last (events r)) else Some (count r))"

section \<open>Example sessions\<close>

text \<open>
  Four calls of one session: two accepted calls for address 1, one accepted call for
  address 2, and one call for address 1 that raises (its \<open>rss\<close> is \<open>None\<close>).
\<close>

definition session_calls :: "add_call list" where
  "session_calls = [(1, Some [-50], None, Some 10), (2, Some [-60], Some [3], Some 11),
                  (1, None, None, Some 12), (1, Some [], Some [4, 5], Some 13)]"

text \<open>
  A session with targets 1 and 2 in which both were observed once, with RSS only;
  the OTAP and frequency targets are left open.
\<close>

definition covered_session :: "int option \<Rightarrow> int option \<Rightarrow> inventory" where
  "covered_session tos tf =
     add_all (init (Some [1, 2]) tos tf)
       [(1, Some [-50], None, Some 10), (2, Some [-60], None, Some 11)]"

text \<open>
  A session with targets 1 and 2 and OTAP target 7: the latest event of node 1 has
  \<open>otap_max = 7\<close> (and \<open>otap_min = 3\<close>), that of node 2 has \<open>otap_min = 7\<close>.
\<close>

definition otap_session :: inventory where
  "otap_session =
     add_all (init (Some [1, 2]) (Some 7) None)
       [(1, Some [], Some [7], Some 10), (2, Some [-60], Some [7, 9], Some 11),
        (1, Some [], Some [3, 7], Some 12)]"

text \<open>A session with target 1 in which only node 5 was observed.\<close>

definition late_target_session :: inventory where
  "late_target_session = add_all (init (Some [1]) None None) [(5, Some [-50], None, Some 10)]"

text \<open>A session with OTAP target 7 in which node 1 was observed with RSS only.\<close>

definition rss_only_session :: "nat list option \<Rightarrow> inventory" where
  "rss_only_session tn = add_all (init tn (Some 7) None) [(1, Some [-50], None, Some 10)]"

text \<open>
  Four messages for the routing: one of class \<open>BootDiagnosticsMessage\<close>, one of class
  \<open>AdvertiserMessage\<close>, one of no listed class, and one (\<open>Derived\<close>) of a class derived
  from both \<open>BootDiagnosticsMessage\<close> and \<open>DiagnosticsMessage\<close>, whose kind is boot
  diagnostics. \<open>example_isinstance\<close> is Python's class test on them: a message passes
  the test of its own class and of every class that one is derived from.
\<close>

datatype example_message = Boot | Advert | Unknown | Derived

fun example_kind :: "example_message \<Rightarrow> message_class option" where
  "example_kind Boot = Some BootDiagnosticsMessage"
| "example_kind Advert = Some AdvertiserMessage"
| "example_kind Unknown = None"
| "example_kind Derived = Some BootDiagnosticsMessage"

definition example_isinstance :: "example_message \<Rightarrow> message_class \<Rightarrow> bool" where
  "example_isinstance m c =
     (example_kind m = Some c \<or> (m = Derived \<and> c = DiagnosticsMessage))"

section \<open>Properties of add\<close>

lemma make_event_rss_None: "make_event None otap = Inl TypeError"
  by (cases otap; cases "the otap")
     (auto simp: make_event_def otap_bounds_def py_bind_def py_any_def
        py_min_def py_max_def truthy_list_def truthy_def)

lemma add_fst: "fst (add s a rss otap ts) = (case make_event rss otap of Inl e \<Rightarrow> Inl e | Inr _ \<Rightarrow> Inr ())"
  by (simp add: add_def Let_def split: sum.splits)

lemma add_raises_index: "make_event rss otap = Inl e \<Longrightarrow> index (snd (add s a rss otap ts)) = index s"
  by (simp add: add_def Let_def)

lemma add_returns_index:
  "make_event rss otap = Inr ev \<Longrightarrow>
   index (snd (add s a rss otap ts)) = store_event (index s) a ts ev"
  by (simp add: add_def Let_def)

lemma map_of_store_event:
  "map_of (store_event idx a ts ev) b =
     (if b = a then
        Some (case map_of idx a of
                None \<Rightarrow> \<lparr>last_seen = ts, events = [ev], count = 1\<rparr>
              | Some r \<Rightarrow> r\<lparr>count := count r + 1, last_seen := ts, events := events r @ [ev]\<rparr>)
      else map_of idx b)"
  by (simp add: store_event_def py_getitem_def update_conv' split: option.splits)

lemma count_of_add_returns:
  "make_event rss otap = Inr ev \<Longrightarrow>
   count_of (snd (add s a rss otap ts)) b = (if b = a then count_of s a + 1 else count_of s b)"
  by (simp add: count_of_def add_returns_index map_of_store_event split: option.splits)

lemma count_of_add_raises:
  "make_event rss otap = Inl e \<Longrightarrow> count_of (snd (add s a rss otap ts)) b = count_of s b"
  by (simp add: count_of_def add_raises_index)

lemma add_cases:
  "add s a rss otap ts = (r, s') \<Longrightarrow>
     (case r of Inl e \<Rightarrow> make_event rss otap = Inl e | Inr _ \<Rightarrow> (\<exists>ev. make_event rss otap = Inr ev))"
  by (auto simp: add_def Let_def split: sum.splits)

lemma count_of_add_all:
  "count_of (add_all s calls) a =
     count_of s a + int (length (filter (\<lambda>c. fst c = a) (accepted_calls s calls)))"
proof (induction s calls rule: add_all.induct)
  case (1 s)
  then show ?case by simp
next
  case (2 s b rss otap ts cs)
  obtain r s' where eq: "add s b rss otap ts = (r, s')"
    by (cases "add s b rss otap ts")
  then have s': "s' = snd (add s b rss otap ts)" by simp
  show ?case
  proof (cases r)
    case (Inl e)
    with eq have "make_event rss otap = Inl e"
      using add_cases[OF eq] by simp
    then have "count_of s' a = count_of s a"
      unfolding s' by (rule count_of_add_raises)
    with 2 eq Inl show ?thesis by simp
  next
    case (Inr u)
    with eq obtain ev where "make_event rss otap = Inr ev"
      using add_cases[OF eq] by auto
    then have "count_of s' a = (if a = b then count_of s b + 1 else count_of s a)"
      unfolding s' by (rule count_of_add_returns)
    with 2 eq Inr show ?thesis by simp
  qed
qed

text \<open>
  Claim C7. After any sequence of \<open>add\<close> calls, the count of an address has grown by
  the number of calls for that address that returned normally; in a session that
  starts from \<open>__init__\<close> it equals that number. The first accepted call for an address
  creates the record with count 1, and every accepted call adds exactly 1.
\<close>

theorem count_equals_accepted_calls:
  "count_of (add_all s calls) a =
     count_of s a + int (length (filter (\<lambda>c. fst c = a) (accepted_calls s calls))) \<and>
   count_of (add_all (init tn tos tf) calls) a =
     int (length (filter (\<lambda>c. fst c = a) (accepted_calls (init tn tos tf) calls))) \<and>
   (map_of (index s) a = None \<and> fst (add s a rss otap ts) = Inr ()
      \<longrightarrow> count_of (snd (add s a rss otap ts)) a = 1) \<and>
   (fst (add s a rss otap ts) = Inr ()
      \<longrightarrow> count_of (snd (add s a rss otap ts)) a = count_of s a + 1)"
proof -
  have init0: "count_of (init tn tos tf) a = 0"
    by (simp add: count_of_def init_def)
  have step: "count_of (snd (add s a rss otap ts)) a = count_of s a + 1"
    if "fst (add s a rss otap ts) = Inr ()"
  proof -
    from that obtain ev where "make_event rss otap = Inr ev"
      by (auto simp: add_fst split: sum.splits)
    then show ?thesis by (simp add: count_of_add_returns)
  qed
  have first: "count_of s a = 0" if "map_of (index s) a = None"
    using that by (simp add: count_of_def)
  show ?thesis
    using count_of_add_all[of s calls a] count_of_add_all[of "init tn tos tf" calls a]
      init0 step first by simp
qed

text \<open>
  Witness for C7: of the three calls for address 1 in \<open>session_calls\<close> two are accepted,
  and the first accepted call on a fresh inventory creates the record with count 1.
\<close>

theorem count_equals_accepted_calls_witness:
  "count_of (add_all (init None None None) session_calls) 1 = 2 \<and>
   map_of (index (init None None None)) 1 = None \<and>
   fst (add (init None None None) 1 (Some [-50]) None (Some 10)) = Inr () \<and>
   count_of (snd (add (init None None None) 1 (Some [-50]) None (Some 10))) 1 = 1"
proof -
  have a: "accepted_calls (init None None None) session_calls =
      [(1, Some [-50], None, Some 10), (2, Some [-60], Some [3], Some 11),
       (1, Some [], Some [4, 5], Some 13)]"
    by code_simp
  have b: "map_of (index (init None None None)) 1 = None"
    by (simp add: init_def)
  have c: "fst (add (init None None None) 1 (Some [-50]) None (Some 10)) = Inr ()"
    by code_simp
  from count_equals_accepted_calls[of "init None None None" session_calls 1 None None None
      "Some [-50]" None "Some 10"] a b c
  show ?thesis by simp
qed

text \<open>
  Claim C9. A call of \<open>add\<close> with \<open>rss = None\<close> raises \<open>TypeError\<close>; the only change to
  the inventory is that the address has joined \<open>_nodes\<close> (no event, count or last_seen
  is stored). Hence a call that returns normally had a list for \<open>rss\<close>.
\<close>

theorem add_rss_None_raises:
  "add s a None otap ts = (Inl TypeError, s\<lparr>nodes := insert a (nodes s)\<rparr>) \<and>
   index (snd (add s a None otap ts)) = index s \<and>
   (fst (add s a rss otap ts) = Inr () \<longrightarrow> rss \<noteq> None)"
proof -
  have 1: "add s a None otap ts = (Inl TypeError, s\<lparr>nodes := insert a (nodes s)\<rparr>)"
    by (simp add: add_def Let_def make_event_rss_None)
  have 2: "rss \<noteq> None" if "fst (add s a rss otap ts) = Inr ()"
  proof
    assume "rss = None"
    with that show False by (simp add: add_fst make_event_rss_None)
  qed
  from 1 2 show ?thesis by simp
qed

text \<open>
  Witness for C9: a call with the list \<open>[-50]\<close> for \<open>rss\<close> returns normally, and a call
  with \<open>rss = None\<close> raises after the address was recorded in \<open>_nodes\<close>.
\<close>

theorem add_rss_None_raises_witness:
  "fst (add (init None None None) 1 (Some [-50]) None None) = Inr () \<and>
   Some [-50::int] \<noteq> None \<and>
   add (init None None None) 1 None (Some [7]) None =
     (Inl TypeError, (init None None None)\<lparr>nodes := {1}\<rparr>)"
proof -
  have c: "fst (add (init None None None) 1 (Some [-50]) None None) = Inr ()"
    by code_simp
  have n: "nodes (init None None None) = {}" by (simp add: init_def)
  from add_rss_None_raises[of "init None None None" 1 "Some [7]" None "Some [-50]"] c n
  show ?thesis by simp
qed

text \<open>
  Claim C1, evaluated where the code departs from it: \<open>add(1, rss=[], timestamp=10)\<close>
  with the default \<open>otap_sequence=None\<close> raises \<open>TypeError\<close> (at \<open>any(otap_sequence)\<close>), after
  the address has joined \<open>_nodes\<close>; no event is stored.
\<close>

theorem add_without_otap_raises:
  "add (init None None None) 1 (Some []) None (Some 10) =
     (Inl TypeError, (init None None None)\<lparr>nodes := {1}\<rparr>)"
  by (simp add: add_def make_event_def otap_bounds_def py_bind_def py_any_def
        truthy_list_def truthy_def init_def)

text \<open>
  The chain decides by truth values, so a sample of 0 counts as no data: an OTAP
  sequence whose minimum is 0 makes \<open>otap_min\<close> falsy, and with RSS samples present the
  event is stored as RSS-only, without \<open>otap\<close>, \<open>otap_min\<close> or \<open>otap_max\<close>.
\<close>

theorem add_zero_otap_minimum:
  "make_event (Some [-50]) (Some [0, 5]) =
     Inr \<lparr>ev_rss = Some (Some [-50]), ev_otap = None, ev_otap_max = None, ev_otap_min = None\<rparr>"
  by (simp add: make_event_def otap_bounds_def py_bind_def py_any_def py_min_def py_max_def
        truthy_list_def truthy_def)

text \<open>
  With lists for both arguments \<open>add\<close> always returns; the event it stores is chosen by
  the truth values of \<open>min(otap_sequence)\<close>, \<open>max(otap_sequence)\<close>, \<open>any(rss)\<close> and
  \<open>any(otap_sequence)\<close>.
\<close>

lemma make_event_lists:
  "make_event (Some xs) (Some ys) =
     Inr (if ys \<noteq> [] \<and> fold min (tl ys) (hd ys) \<noteq> 0 \<and> fold max (tl ys) (hd ys) \<noteq> 0 \<and>
             list_ex (\<lambda>x. x \<noteq> 0) xs
          then \<lparr>ev_rss = Some (Some xs), ev_otap = Some (Some ys),
                ev_otap_max = Some (fold max (tl ys) (hd ys)),
                ev_otap_min = Some (fold min (tl ys) (hd ys))\<rparr>
          else if list_ex (\<lambda>x. x \<noteq> 0) xs
          then \<lparr>ev_rss = Some (Some xs), ev_otap = None, ev_otap_max = None, ev_otap_min = None\<rparr>
          else if list_ex (\<lambda>y. y \<noteq> 0) ys
          then \<lparr>ev_rss = None, ev_otap = Some (Some ys),
                ev_otap_max = Some (fold max (tl ys) (hd ys)),
                ev_otap_min = Some (fold min (tl ys) (hd ys))\<rparr>
          else \<lparr>ev_rss = Some (Some xs), ev_otap = Some (Some ys),
                ev_otap_max = None, ev_otap_min = None\<rparr>)"
  by (cases ys)
     (simp_all add: make_event_def otap_bounds_def py_bind_def py_any_def py_min_def py_max_def
        truthy_list_def truthy_def)

lemma add_lists_returns: "fst (add s a (Some xs) (Some ys) ts) = Inr ()"
  by (simp add: add_fst make_event_lists)

text \<open>
  With a list for \<open>rss\<close> and \<open>otap_sequence = None\<close>, \<open>add\<close> returns exactly when some RSS
  sample is non-zero.
\<close>

lemma add_otap_None:
  "fst (add s a (Some xs) None ts) = (if list_ex (\<lambda>x. x \<noteq> 0) xs then Inr () else Inl TypeError)"
  by (simp add: add_fst make_event_def otap_bounds_def py_bind_def py_any_def
        truthy_list_def truthy_def)

text \<open>Well-formedness holds initially and is kept by every call of \<open>add\<close>.\<close>

lemma make_event_both_or_neither:
  "make_event rss otap = Inr ev \<Longrightarrow> (ev_otap_min ev = None) = (ev_otap_max ev = None)"
  by (auto simp: make_event_def py_bind_def split: sum.splits if_splits prod.splits)

lemma set_update_subset: "x \<in> set (AList.update k v al) \<Longrightarrow> x = (k, v) \<or> x \<in> set al"
  by (induction al) (auto split: if_splits)

lemma wf_store_event:
  assumes "distinct (map fst idx)" and "list_all (\<lambda>(a, r). wf_record r) idx"
    and "(ev_otap_min ev = None) = (ev_otap_max ev = None)"
  shows "distinct (map fst (store_event idx a ts ev)) \<and>
         list_all (\<lambda>(a, r). wf_record r) (store_event idx a ts ev)"
proof (cases "map_of idx a")
  case None
  then have eq: "store_event idx a ts ev =
      AList.update a \<lparr>last_seen = ts, events = [ev], count = 1\<rparr> idx"
    by (simp add: store_event_def py_getitem_def)
  have "wf_record \<lparr>last_seen = ts, events = [ev], count = 1\<rparr>"
    using assms(3) by (simp add: wf_record_def)
  with assms(1,2) show ?thesis
    unfolding eq by (auto simp: distinct_update list_all_iff dest!: set_update_subset)
next
  case (Some r)
  then have eq: "store_event idx a ts ev =
      AList.update a (r\<lparr>count := count r + 1, last_seen := ts, events := events r @ [ev]\<rparr>) idx"
    by (simp add: store_event_def py_getitem_def)
  from Some have "(a, r) \<in> set idx" by (rule map_of_SomeD)
  with assms(2) have "wf_record r" by (auto simp: list_all_iff)
  then have "wf_record (r\<lparr>count := count r + 1, last_seen := ts, events := events r @ [ev]\<rparr>)"
    using assms(3) by (simp add: wf_record_def)
  with assms(1,2) show ?thesis
    unfolding eq by (auto simp: distinct_update list_all_iff dest!: set_update_subset)
qed

lemma wf_inventory_init: "distinct ns \<Longrightarrow> wf_inventory (init (Some ns) tos tf)"
  by (simp add: wf_inventory_def init_def)

lemma wf_inventory_init_None: "wf_inventory (init None tos tf)"
  by (simp add: wf_inventory_def init_def)

lemma wf_inventory_add: "wf_inventory s \<Longrightarrow> wf_inventory (snd (add s a rss otap ts))"
proof (cases "make_event rss otap")
  case (Inl e)
  assume "wf_inventory s"
  with Inl show ?thesis by (simp add: add_def Let_def wf_inventory_def)
next
  case (Inr ev)
  assume w: "wf_inventory s"
  from wf_store_event[OF _ _ make_event_both_or_neither[OF Inr], of "index s" a ts] w Inr
  show ?thesis by (simp add: add_def Let_def wf_inventory_def)
qed

lemma wf_inventory_add_all: "wf_inventory s \<Longrightarrow> wf_inventory (add_all s calls)"
  by (induction s calls rule: add_all.induct) (simp_all add: wf_inventory_add)

section \<open>Properties of the predicates\<close>

text \<open>
  Claim C8. With a deadline set, \<open>is_out_of_time\<close> returns \<open>True\<close> exactly when the
  current time is at or after the deadline: \<open>False\<close> one second (\<open>10^6\<close> microseconds)
  before it, \<open>True\<close> at the deadline itself.
\<close>

theorem is_out_of_time_iff:
  "deadline s = Some d \<Longrightarrow>
     is_out_of_time s now = Inr (d \<le> now) \<and>
     is_out_of_time s (d - 1000000) = Inr False \<and>
     is_out_of_time s d = Inr True"
  by (simp add: is_out_of_time_def until_def py_bind_def total_seconds_def)

text \<open>
  Witness for C8: a deadline at 5 s; the answer is \<open>False\<close> at 4 s and \<open>True\<close> at 5 s
  and one microsecond later.
\<close>

theorem is_out_of_time_iff_witness:
  "deadline ((init None None None)\<lparr>deadline := Some 5000000\<rparr>) = Some 5000000 \<and>
   is_out_of_time ((init None None None)\<lparr>deadline := Some 5000000\<rparr>) 4000000 = Inr False \<and>
   is_out_of_time ((init None None None)\<lparr>deadline := Some 5000000\<rparr>) 5000000 = Inr True \<and>
   is_out_of_time ((init None None None)\<lparr>deadline := Some 5000000\<rparr>) 5000001 = Inr True"
proof -
  have d: "deadline ((init None None None)\<lparr>deadline := Some 5000000\<rparr>) = Some 5000000"
    by simp
  from is_out_of_time_iff[OF d, of 5000001] is_out_of_time_iff[OF d, of 0] d
  show ?thesis by simp
qed

lemma below_inf_iff: "below_inf t = (t \<noteq> Unbounded)"
  by (cases t) (simp_all add: below_inf_def)

lemma truthy_iff: "truthy v = (v \<noteq> None \<and> v \<noteq> Some 0)"
  by (cases v) (simp_all add: truthy_def)

lemma elapsed_started: "start s = Some st \<Longrightarrow> \<exists>x s'. elapsed s now = (Inr x, s')"
  by (simp add: elapsed_def Let_def)

lemma covered_session_eq:
  "covered_session tos tf =
     \<lparr>target_nodes = [1, 2], target_otap_sequence = tos,
      target_frequency = (case tf of None \<Rightarrow> Unbounded | Some f \<Rightarrow> Finite f),
      nodes = {1, 2},
      index = [(1, \<lparr>last_seen = Some 10,
                     events = [\<lparr>ev_rss = Some (Some [-50]), ev_otap = None,
                                ev_otap_max = None, ev_otap_min = None\<rparr>], count = 1\<rparr>),
               (2, \<lparr>last_seen = Some 11,
                     events = [\<lparr>ev_rss = Some (Some [-60]), ev_otap = None,
                                ev_otap_max = None, ev_otap_min = None\<rparr>], count = 1\<rparr>)],
      start = None, deadline = None, finish = None, otaped = {}, runtime = None\<rparr>"
  by (auto simp: covered_session_def init_def add_def make_event_def otap_bounds_def py_bind_def
        py_any_def truthy_list_def truthy_def store_event_def py_getitem_def Let_def)

text \<open>
  Claim C2, as amended. \<open>is_complete\<close> returns \<open>True\<close> exactly when \<open>target_nodes\<close> is
  non-empty, \<open>target_frequency\<close> is unbounded, \<open>target_otap_sequence\<close> is \<open>None\<close> or 0, and
  the observed nodes include every target node. In a started session every other
  state gives \<open>False\<close>; a finite frequency target gives \<open>False\<close> in every state.
\<close>

theorem is_complete_iff:
  "(fst (is_complete s now) = Inr True) = plain_coverage s \<and>
   (start s \<noteq> None \<longrightarrow> fst (is_complete s now) = Inr (plain_coverage s)) \<and>
   (target_frequency s = Finite f \<longrightarrow> fst (is_complete s now) = Inr False)"
proof -
  have 1: "(fst (is_complete s now) = Inr True) = plain_coverage s"
    by (auto simp: is_complete_def plain_coverage_def below_inf_iff truthy_iff
          split: prod.splits sum.splits)
  have 2: "fst (is_complete s now) = Inr (plain_coverage s)" if "start s \<noteq> None"
  proof -
    from that obtain st where "start s = Some st" by auto
    from elapsed_started[OF this] obtain x s' where "elapsed s now = (Inr x, s')" by blast
    then show ?thesis
      by (auto simp: is_complete_def plain_coverage_def below_inf_iff truthy_iff)
  qed
  have 3: "fst (is_complete s now) = Inr False" if "target_frequency s = Finite f"
    using that by (simp add: is_complete_def below_inf_def)
  from 1 2 3 show ?thesis by blast
qed

text \<open>
  Witness for C2: with both targets observed, \<open>is_complete\<close> is \<open>True\<close> in plain coverage
  mode, \<open>False\<close> with \<open>target_frequency = 5\<close>, and \<open>False\<close> with an OTAP target of 7 in a
  started session.
\<close>

theorem is_complete_iff_witness:
  "fst (is_complete (covered_session None None) 0) = Inr True \<and>
   plain_coverage (covered_session None None) \<and>
   target_frequency (covered_session None (Some 5)) = Finite 5 \<and>
   set (target_nodes (covered_session None (Some 5))) \<subseteq> nodes (covered_session None (Some 5)) \<and>
   fst (is_complete (covered_session None (Some 5)) 0) = Inr False \<and>
   start ((covered_session (Some 7) None)\<lparr>start := Some 0\<rparr>) \<noteq> None \<and>
   fst (is_complete ((covered_session (Some 7) None)\<lparr>start := Some 0\<rparr>) 0) = Inr False"
proof -
  have a: "plain_coverage (covered_session None None)"
    by (simp add: covered_session_eq plain_coverage_def)
  have b: "target_frequency (covered_session None (Some 5)) = Finite 5"
    by (simp add: covered_session_eq)
  have c: "set (target_nodes (covered_session None (Some 5))) \<subseteq> nodes (covered_session None (Some 5))"
    by (simp add: covered_session_eq)
  have d: "\<not> plain_coverage ((covered_session (Some 7) None)\<lparr>start := Some 0\<rparr>)"
    by (simp add: covered_session_eq plain_coverage_def)
  from is_complete_iff[of "covered_session None None" 0 5]
       is_complete_iff[of "covered_session None (Some 5)" 0 5]
       is_complete_iff[of "(covered_session (Some 7) None)\<lparr>start := Some 0\<rparr>" 0 5]
       a b c d
  show ?thesis by simp
qed

text \<open>
  Counterexample to C2 as stated: with \<open>target_otap_sequence = 0\<close> (set, but falsy) and
  both targets observed, \<open>is_complete\<close> returns \<open>True\<close>, although the specified
  condition, which asks for no OTAP target, does not hold.
\<close>

theorem is_complete_zero_otap_target:
  "fst (is_complete (covered_session (Some 0) None) 0) = Inr True \<and>
   \<not> spec_is_complete (covered_session (Some 0) None)"
  by (simp add: covered_session_eq is_complete_def below_inf_def truthy_def
        spec_is_complete_def)

lemma wf_inventory_records: "wf_inventory s \<Longrightarrow> (a, r) \<in> set (index s) \<Longrightarrow> wf_record r"
  by (auto simp: wf_inventory_def list_all_iff)

lemma otaped_test_wf:
  assumes "wf_record r" and "target \<noteq> None"
  shows "otaped_test target r = Inr True \<and> latest_matches target r \<or>
         otaped_test target r = Inr False \<and> \<not> latest_matches target r \<or>
         otaped_test target r = Inl KeyError \<and> \<not> latest_matches target r"
proof -
  from assms(1) have ne: "events r \<noteq> []"
    and both: "(ev_otap_min (last (events r)) = None) = (ev_otap_max (last (events r)) = None)"
    by (auto simp: wf_record_def list_all_iff)
  from ne have l: "py_last (events r) = Inr (last (events r))"
    by (cases "events r") (simp_all add: py_last_def)
  show ?thesis
    using both assms(2)
    by (cases "ev_otap_min (last (events r))"; cases "ev_otap_max (last (events r))")
       (auto simp: otaped_test_def l py_bind_def latest_matches_def)
qed

lemma otaped_nodes_loop_wf:
  assumes "\<forall>(a, r) \<in> set idx. wf_record r" and "target \<noteq> None"
  shows "otaped_nodes_loop target idx acc =
           (None, acc \<union> {a. \<exists>r. (a, r) \<in> set idx \<and> latest_matches target r})"
  using assms(1)
proof (induction idx arbitrary: acc)
  case Nil
  then show ?case by simp
next
  case (Cons p idx)
  obtain a r where p: "p = (a, r)" by (cases p)
  with Cons.prems have "wf_record r" by simp
  from otaped_test_wf[OF this assms(2)] Cons.prems
  show ?case
    by (auto simp: p Cons.IH)
qed

lemma otaped_nodes_wf:
  assumes "wf_inventory s" and "target_otap_sequence s \<noteq> None"
  shows "otaped_nodes s =
    (Inr {a. \<exists>r. map_of (index s) a = Some r \<and> latest_matches (target_otap_sequence s) r},
     s\<lparr>otaped := {a. \<exists>r. map_of (index s) a = Some r \<and> latest_matches (target_otap_sequence s) r}\<rparr>)"
proof -
  from assms(1) have d: "distinct (map fst (index s))"
    by (simp add: wf_inventory_def)
  have r: "\<forall>(a, r) \<in> set (index s). wf_record r"
    using wf_inventory_records[OF assms(1)] by auto
  have "{a. \<exists>r. (a, r) \<in> set (index s) \<and> latest_matches (target_otap_sequence s) r} =
        {a. \<exists>r. map_of (index s) a = Some r \<and> latest_matches (target_otap_sequence s) r}"
    using d by auto
  with otaped_nodes_loop_wf[OF r assms(2), of "{}"] show ?thesis
    by (simp add: otaped_nodes_def)
qed

lemma spec_is_otaped_iff:
  "spec_is_otaped s =
     (target_nodes s \<noteq> [] \<and> target_otap_sequence s \<noteq> None \<and>
      set (target_nodes s) \<subseteq>
        {a. \<exists>r. map_of (index s) a = Some r \<and> latest_matches (target_otap_sequence s) r})"
  by (auto simp: spec_is_otaped_def list_all_iff split: option.splits)

lemma wf_inventory_update [simp]:
  "wf_inventory (s\<lparr>otaped := x\<rparr>) = wf_inventory s"
  "wf_inventory (s\<lparr>runtime := y\<rparr>) = wf_inventory s"
  by (simp_all add: wf_inventory_def)

text \<open>
  Claim C3. On a well-formed inventory \<open>is_otaped\<close> returns \<open>True\<close> exactly when
  \<open>target_nodes\<close> is non-empty, \<open>target_otap_sequence\<close> is set, and the latest event of
  every target node has \<open>otap_min\<close> or \<open>otap_max\<close> equal to the target; only the last
  event of a record is read. In a started session every other state gives \<open>False\<close>.
\<close>

theorem is_otaped_iff:
  assumes "wf_inventory s"
  shows "(fst (is_otaped s now) = Inr True) = spec_is_otaped s \<and>
         (start s \<noteq> None \<longrightarrow> fst (is_otaped s now) = Inr (spec_is_otaped s))"
proof (cases "target_nodes s = [] \<or> target_otap_sequence s = None")
  case True
  then show ?thesis
    by (auto simp: is_otaped_def spec_is_otaped_def)
next
  case False
  then have t: "target_otap_sequence s \<noteq> None" and n: "target_nodes s \<noteq> []" by simp_all
  let ?S = "{a. \<exists>r. map_of (index s) a = Some r \<and> latest_matches (target_otap_sequence s) r}"
  note o = otaped_nodes_wf[OF assms t]
  show ?thesis
  proof (cases "set (target_nodes s) \<subseteq> ?S")
    case True
    with n t o show ?thesis
      by (simp add: is_otaped_def spec_is_otaped_iff)
  next
    case ns: False
    then have no: "\<not> spec_is_otaped s" by (simp add: spec_is_otaped_iff)
    show ?thesis
    proof (cases "start s")
      case None
      with n t o ns no show ?thesis
        by (simp add: is_otaped_def elapsed_def Let_def)
    next
      case (Some st)
      have w2: "wf_inventory (s\<lparr>otaped := ?S, runtime := x\<rparr>)" for x
        using assms by simp
      have t2: "target_otap_sequence (s\<lparr>otaped := ?S, runtime := x\<rparr>) \<noteq> None" for x
        using t by simp
      from Some n t o ns no show ?thesis
        by (simp add: is_otaped_def elapsed_def Let_def otaped_nodes_wf[OF w2 t2])
    qed
  qed
qed

lemma otap_session_eq:
  "otap_session =
     \<lparr>target_nodes = [1, 2], target_otap_sequence = Some 7,
      target_frequency = Unbounded,
      nodes = {1, 2},
      index = [(1, \<lparr>last_seen = Some 12,
                     events = [\<lparr>ev_rss = None, ev_otap = Some (Some [7]),
                                ev_otap_max = Some 7, ev_otap_min = Some 7\<rparr>,
                               \<lparr>ev_rss = None, ev_otap = Some (Some [3, 7]),
                                ev_otap_max = Some 7, ev_otap_min = Some 3\<rparr>], count = 2\<rparr>),
               (2, \<lparr>last_seen = Some 11,
                     events = [\<lparr>ev_rss = Some (Some [-60]), ev_otap = Some (Some [7, 9]),
                                ev_otap_max = Some 9, ev_otap_min = Some 7\<rparr>], count = 1\<rparr>)],
      start = None, deadline = None, finish = None, otaped = {}, runtime = None\<rparr>"
  by (auto simp: otap_session_def init_def add_def make_event_def otap_bounds_def py_bind_def
        py_any_def py_min_def py_max_def truthy_list_def truthy_def store_event_def
        py_getitem_def Let_def)

text \<open>
  Witness for C3, the example of the specification: targets 1 and 2, OTAP target 7,
  node 1 with \<open>otap_max = 7\<close> and node 2 with \<open>otap_min = 7\<close> in their latest events give
  \<open>True\<close>; with target 3 node 2 does not match and the started session gives \<open>False\<close>.
\<close>

theorem is_otaped_iff_witness:
  "wf_inventory otap_session \<and> spec_is_otaped otap_session \<and>
   fst (is_otaped otap_session 0) = Inr True \<and>
   start (otap_session\<lparr>target_otap_sequence := Some 3, start := Some 0\<rparr>) \<noteq> None \<and>
   fst (is_otaped (otap_session\<lparr>target_otap_sequence := Some 3, start := Some 0\<rparr>) 5) = Inr False"
proof -
  have w: "wf_inventory otap_session"
    by (simp add: otap_session_eq wf_inventory_def wf_record_def)
  have w': "wf_inventory (otap_session\<lparr>target_otap_sequence := Some 3, start := Some 0\<rparr>)"
    by (simp add: otap_session_eq wf_inventory_def wf_record_def)
  have a: "spec_is_otaped otap_session"
    by (simp add: otap_session_eq spec_is_otaped_def latest_matches_def)
  have b: "\<not> spec_is_otaped (otap_session\<lparr>target_otap_sequence := Some 3, start := Some 0\<rparr>)"
    by (simp add: otap_session_eq spec_is_otaped_def latest_matches_def)
  from is_otaped_iff[OF w, of 0] is_otaped_iff[OF w', of 5] w a b
  show ?thesis by simp
qed

section \<open>Properties of the frequencies\<close>

lemma update_append_new: "k \<notin> fst ` set al \<Longrightarrow> AList.update k v al = al @ [(k, v)]"
  by (induction al) auto

lemma frequency_loop_values:
  assumes "distinct ks" and "set ks \<inter> fst ` set freq = {}"
    and "\<forall>k\<in>set ks. frequency_value target idx k = Inr (g k)"
  shows "frequency_loop target idx ks freq = Inr (freq @ map (\<lambda>k. (k, g k)) ks)"
  using assms
proof (induction ks arbitrary: freq)
  case Nil
  then show ?case by simp
next
  case (Cons k ks)
  from Cons.prems have new: "k \<notin> fst ` set freq" by auto
  have "frequency_loop target idx ks (freq @ [(k, g k)]) =
          Inr ((freq @ [(k, g k)]) @ map (\<lambda>k. (k, g k)) ks)"
    using Cons.prems by (intro Cons.IH) auto
  with Cons.prems new show ?case
    by (simp add: py_bind_def update_append_new)
qed

lemma frequency_loop_KeyError:
  assumes "\<forall>k\<in>set ks. frequency_value target idx k = Inl KeyError \<or>
                       (\<exists>v. frequency_value target idx k = Inr v)"
    and "\<exists>k\<in>set ks. frequency_value target idx k = Inl KeyError"
  shows "frequency_loop target idx ks freq = Inl KeyError"
  using assms
proof (induction ks arbitrary: freq)
  case Nil
  then show ?case by simp
next
  case (Cons k ks)
  show ?case
  proof (cases "frequency_value target idx k")
    case (Inl e)
    with Cons.prems(1) show ?thesis by (auto simp: py_bind_def)
  next
    case (Inr v)
    with Cons.prems have "\<exists>k\<in>set ks. frequency_value target idx k = Inl KeyError" by auto
    with Cons.prems(1) Inr show ?thesis by (simp add: py_bind_def Cons.IH)
  qed
qed

lemma frequency_by_value_loop_KeyError:
  assumes "\<forall>k\<in>set ks. frequency_value target idx k = Inl KeyError \<or>
                       (\<exists>v. frequency_value target idx k = Inr v)"
    and "\<exists>k\<in>set ks. frequency_value target idx k = Inl KeyError"
  shows "frequency_by_value_loop target idx ks freq mx = Inl KeyError"
  using assms
proof (induction ks arbitrary: freq mx)
  case Nil
  then show ?case by simp
next
  case (Cons k ks)
  show ?case
  proof (cases "frequency_value target idx k")
    case (Inl e)
    with Cons.prems(1) show ?thesis by (auto simp: py_bind_def)
  next
    case (Inr v)
    with Cons.prems have "\<exists>k\<in>set ks. frequency_value target idx k = Inl KeyError" by auto
    with Cons.prems(1) Inr show ?thesis by (simp add: py_bind_def Cons.IH)
  qed
qed

lemma account_fold:
  "distinct ts \<Longrightarrow>
   fold (\<lambda>node d'. if map_of d' node = None then AList.update node 0 d' else d') ts d =
     d @ map (\<lambda>n. (n, 0)) (filter (\<lambda>n. n \<notin> fst ` set d) ts)"
proof (induction ts arbitrary: d)
  case Nil
  then show ?case by simp
next
  case (Cons n ts)
  then have nts: "n \<notin> set ts" and d: "distinct ts" by simp_all
  show ?case
  proof (cases "map_of d n")
    case None
    then have new: "n \<notin> fst ` set d" by (simp add: map_of_eq_None_iff)
    have "filter (\<lambda>m. m \<notin> fst ` set (d @ [(n, 0)])) ts = filter (\<lambda>m. m \<notin> fst ` set d) ts"
      using nts by (intro filter_cong) auto
    with None new show ?thesis
      by (simp add: Cons.IH[OF d] update_append_new)
  next
    case (Some v)
    then have "n \<in> fst ` set d" by (metis map_of_eq_None_iff option.distinct(1))
    with Some show ?thesis by (simp add: Cons.IH[OF d])
  qed
qed

lemma account_for_target_nodes_eq:
  "distinct (target_nodes s) \<Longrightarrow>
   account_for_target_nodes s d =
     d @ map (\<lambda>n. (n, 0)) (filter (\<lambda>n. n \<notin> fst ` set d) (target_nodes s))"
  by (cases "target_nodes s = []") (simp_all add: account_for_target_nodes_def account_fold)

lemma frequency_value_wf:
  assumes "wf_inventory s" and "(a, r) \<in> set (index s)"
  shows "frequency_value (target_otap_sequence s) (index s) a =
           (case node_frequency s r of None \<Rightarrow> Inl KeyError | Some v \<Rightarrow> Inr v)"
proof -
  from assms have m: "map_of (index s) a = Some r"
    by (simp add: wf_inventory_def)
  from wf_inventory_records[OF assms] have "events r \<noteq> []" by (simp add: wf_record_def)
  then have l: "py_last (events r) = Inr (last (events r))"
    by (cases "events r") (simp_all add: py_last_def)
  show ?thesis
    by (simp add: frequency_value_def py_getitem_def m l py_bind_def node_frequency_def
          split: option.splits)
qed


lemma map_of_graph: "map_of (map (\<lambda>k. (k, g k)) ks) a = (if a \<in> set ks then Some (g a) else None)"
  by (induction ks) auto

text \<open>
  Claim C4, as amended. On a well-formed inventory in which, when the OTAP target is
  truthy, the latest event of every observed node carries \<open>otap_max\<close>, \<open>frequency\<close>
  returns a mapping whose keys are the observed addresses in ascending order followed
  by the target nodes not yet observed; every observed node maps to its
  \<open>node_frequency\<close> and every unobserved target node to 0.
\<close>

theorem frequency_result:
  assumes "wf_inventory s"
    and "\<forall>(a, r)\<in>set (index s). node_frequency s r \<noteq> None"
  shows "\<exists>d. frequency s = Inr d \<and>
           map fst d = sort (map fst (index s)) @
                       filter (\<lambda>n. n \<notin> set (map fst (index s))) (target_nodes s) \<and>
           (\<forall>(a, r)\<in>set (index s). map_of d a = node_frequency s r) \<and>
           (\<forall>n\<in>set (target_nodes s). n \<notin> set (map fst (index s)) \<longrightarrow> map_of d n = Some 0)"
proof -
  let ?idx = "index s"
  let ?ks = "sort (map fst ?idx)"
  define g where "g a = the (node_frequency s (the (map_of ?idx a)))" for a
  from assms(1) have dk: "distinct (map fst ?idx)" and dt: "distinct (target_nodes s)"
    by (simp_all add: wf_inventory_def)
  have val: "node_frequency s r = Some (g a)" if "(a, r) \<in> set ?idx" for a r
  proof -
    from that dk have "map_of ?idx a = Some r" by simp
    moreover from that assms(2) have "node_frequency s r \<noteq> None" by auto
    ultimately show ?thesis by (auto simp: g_def)
  qed
  have fv: "\<forall>k\<in>set ?ks. frequency_value (target_otap_sequence s) ?idx k = Inr (g k)"
  proof
    fix k assume "k \<in> set ?ks"
    then obtain r where r: "(k, r) \<in> set ?idx" by auto
    from frequency_value_wf[OF assms(1) r] val[OF r]
    show "frequency_value (target_otap_sequence s) ?idx k = Inr (g k)" by simp
  qed
  let ?seen = "map (\<lambda>k. (k, g k)) ?ks"
  have loop: "frequency_loop (target_otap_sequence s) ?idx ?ks [] = Inr ?seen"
    using frequency_loop_values[OF _ _ fv, of "[]"] dk by simp
  have keys0: "fst ` set ?seen = set (map fst ?idx)"
    by force
  let ?rest = "filter (\<lambda>n. n \<notin> set (map fst ?idx)) (target_nodes s)"
  let ?all = "?seen @ map (\<lambda>n. (n, 0)) ?rest"
  have res: "frequency s = Inr ?all"
    using loop account_for_target_nodes_eq[OF dt, of ?seen] keys0
    by (simp add: frequency_def py_bind_def)
  have order: "map fst ?all = ?ks @ ?rest"
    by (simp add: comp_def)
  have m0: "map_of ?seen a = (if a \<in> set (map fst ?idx) then Some (g a) else None)" for a
    using map_of_graph[of g ?ks a] by simp
  have obs: "\<forall>(a, r)\<in>set ?idx. map_of ?all a = node_frequency s r"
  proof (clarify)
    fix a r assume ar: "(a, r) \<in> set ?idx"
    then have "a \<in> set (map fst ?idx)" by force
    with m0[of a] val[OF ar] show "map_of ?all a = node_frequency s r"
      by (simp del: set_map)
  qed
  have unobs: "\<forall>n\<in>set (target_nodes s). n \<notin> set (map fst ?idx) \<longrightarrow> map_of ?all n = Some 0"
  proof (intro ballI impI)
    fix n assume n: "n \<in> set (target_nodes s)" "n \<notin> set (map fst ?idx)"
    then have "n \<in> set ?rest" by simp
    then have "map_of (map (\<lambda>n. (n, 0::int)) ?rest) n = Some 0"
      using map_of_graph[of "\<lambda>n. 0::int" ?rest n] by simp
    with m0[of n] n(2) show "map_of ?all n = Some 0"
      by (simp add: map_add_def del: set_map)
  qed
  from res order obs unobs show ?thesis by blast
qed


lemma late_target_session_eq:
  "late_target_session =
     \<lparr>target_nodes = [1], target_otap_sequence = None, target_frequency = Unbounded,
      nodes = {5},
      index = [(5, \<lparr>last_seen = Some 10,
                     events = [\<lparr>ev_rss = Some (Some [-50]), ev_otap = None,
                                ev_otap_max = None, ev_otap_min = None\<rparr>], count = 1\<rparr>)],
      start = None, deadline = None, finish = None, otaped = {}, runtime = None\<rparr>"
  by (auto simp: late_target_session_def init_def add_def make_event_def otap_bounds_def
        py_bind_def py_any_def truthy_list_def truthy_def store_event_def py_getitem_def Let_def)

lemma rss_only_session_eq:
  "rss_only_session tn =
     \<lparr>target_nodes = (case tn of None \<Rightarrow> [] | Some ns \<Rightarrow> ns),
      target_otap_sequence = Some 7, target_frequency = Unbounded,
      nodes = {1},
      index = [(1, \<lparr>last_seen = Some 10,
                     events = [\<lparr>ev_rss = Some (Some [-50]), ev_otap = None,
                                ev_otap_max = None, ev_otap_min = None\<rparr>], count = 1\<rparr>)],
      start = None, deadline = None, finish = None, otaped = {}, runtime = None\<rparr>"
  by (auto simp: rss_only_session_def init_def add_def make_event_def otap_bounds_def
        py_bind_def py_any_def truthy_list_def truthy_def store_event_def py_getitem_def Let_def)

text \<open>
  Witness for C4: one observed node and one unobserved, smaller target without OTAP
  target, and the two observed targets of \<open>otap_session\<close> with OTAP target 7.
\<close>

theorem frequency_result_witness:
  "wf_inventory late_target_session \<and>
   frequency late_target_session = Inr [(5, 1), (1, 0)] \<and>
   wf_inventory otap_session \<and>
   (\<exists>d. frequency otap_session = Inr d \<and> map fst d = [1, 2] \<and>
        map_of d 1 = Some 7 \<and> map_of d 2 = Some 9)"
proof -
  have w1: "wf_inventory late_target_session"
    by (simp add: late_target_session_eq wf_inventory_def wf_record_def)
  have h1: "\<forall>(a, r)\<in>set (index late_target_session). node_frequency late_target_session r \<noteq> None"
    by (simp add: late_target_session_eq node_frequency_def truthy_def)
  have w2: "wf_inventory otap_session"
    by (simp add: otap_session_eq wf_inventory_def wf_record_def)
  have h2: "\<forall>(a, r)\<in>set (index otap_session). node_frequency otap_session r \<noteq> None"
    by (simp add: otap_session_eq node_frequency_def truthy_def)
  from frequency_result[OF w1 h1] obtain d1 where d1: "frequency late_target_session = Inr d1"
    and o1: "map fst d1 = [5, 1]"
    and v1: "map_of d1 5 = Some 1" "map_of d1 1 = Some 0"
    by (auto simp: late_target_session_eq node_frequency_def truthy_def)
  from o1 v1 have "d1 = [(5, 1), (1, 0)]"
    by (cases d1; cases "tl d1") (auto split: if_splits)
  with d1 have r1: "frequency late_target_session = Inr [(5, 1), (1, 0)]" by simp
  from frequency_result[OF w2 h2] obtain d2 where "frequency otap_session = Inr d2"
    and "map fst d2 = [1, 2]" and "map_of d2 1 = Some 7" "map_of d2 2 = Some 9"
    by (auto simp: otap_session_eq node_frequency_def truthy_def)
  with w1 w2 r1 show ?thesis by simp
qed

text \<open>
  Counterexample to C4 as stated: with node 5 observed and target node 1 not yet
  observed, the mapping is iterated as 5, 1, which is not ascending.
\<close>

theorem frequency_not_ascending:
  "frequency late_target_session = Inr [(5, 1), (1, 0)] \<and>
   \<not> sorted (map fst [(5, 1), (1::nat, 0::int)])"
  by (simp add: late_target_session_eq frequency_def frequency_value_def py_getitem_def
        py_bind_def truthy_def account_for_target_nodes_def)

text \<open>
  Claim C10, as amended. With a truthy OTAP target and an observed node whose latest
  event has no \<open>otap_max\<close>, \<open>frequency\<close> and \<open>frequency_by_value\<close> raise \<open>KeyError\<close>;
  \<open>is_frequency_reached\<close> raises \<open>KeyError\<close> when \<open>target_nodes\<close> is non-empty and returns
  \<open>False\<close> when it is empty.
\<close>

theorem frequency_KeyError:
  assumes "wf_inventory s" and "truthy (target_otap_sequence s)"
    and "\<exists>(a, r)\<in>set (index s). ev_otap_max (last (events r)) = None"
  shows "frequency s = Inl KeyError \<and> frequency_by_value s = Inl KeyError \<and>
         is_frequency_reached s = (if target_nodes s = [] then Inr False else Inl KeyError)"
proof -
  let ?idx = "index s"
  let ?ks = "sort (map fst ?idx)"
  let ?fv = "frequency_value (target_otap_sequence s) ?idx"
  have each: "\<forall>k\<in>set ?ks. ?fv k = Inl KeyError \<or> (\<exists>v. ?fv k = Inr v)"
  proof
    fix k assume "k \<in> set ?ks"
    then obtain r where "(k, r) \<in> set ?idx" by auto
    from frequency_value_wf[OF assms(1) this]
    show "?fv k = Inl KeyError \<or> (\<exists>v. ?fv k = Inr v)"
      by (cases "node_frequency s r") simp_all
  qed
  from assms(3) obtain a r where ar: "(a, r) \<in> set ?idx"
    and none: "ev_otap_max (last (events r)) = None" by auto
  from none assms(2) have "node_frequency s r = None" by (simp add: node_frequency_def)
  with frequency_value_wf[OF assms(1) ar] have "?fv a = Inl KeyError" by simp
  moreover from ar have "a \<in> set ?ks" by force
  ultimately have some: "\<exists>k\<in>set ?ks. ?fv k = Inl KeyError" by blast
  have f: "frequency s = Inl KeyError"
    by (simp add: frequency_def py_bind_def frequency_loop_KeyError[OF each some])
  have b: "frequency_by_value s = Inl KeyError"
    by (simp add: frequency_by_value_def py_bind_def frequency_by_value_loop_KeyError[OF each some])
  have r: "is_frequency_reached s = (if target_nodes s = [] then Inr False else Inl KeyError)"
    by (simp add: is_frequency_reached_def f py_bind_def)
  from f b r show ?thesis by simp
qed

text \<open>
  Witness for C10: OTAP target 7, target node 1 observed with an RSS-only event.
\<close>

theorem frequency_KeyError_witness:
  "wf_inventory (rss_only_session (Some [1])) \<and>
   truthy (target_otap_sequence (rss_only_session (Some [1]))) \<and>
   list_ex (\<lambda>(a, r). ev_otap_max (last (events r)) = None) (index (rss_only_session (Some [1]))) \<and>
   frequency (rss_only_session (Some [1])) = Inl KeyError \<and>
   frequency_by_value (rss_only_session (Some [1])) = Inl KeyError \<and>
   is_frequency_reached (rss_only_session (Some [1])) = Inl KeyError"
proof -
  have w: "wf_inventory (rss_only_session (Some [1]))"
    by (simp add: rss_only_session_eq wf_inventory_def wf_record_def)
  have t: "truthy (target_otap_sequence (rss_only_session (Some [1])))"
    by (simp add: rss_only_session_eq truthy_def)
  have e: "\<exists>(a, r)\<in>set (index (rss_only_session (Some [1]))). ev_otap_max (last (events r)) = None"
    by (simp add: rss_only_session_eq)
  have n: "target_nodes (rss_only_session (Some [1])) \<noteq> []"
    by (simp add: rss_only_session_eq)
  from frequency_KeyError[OF w t e] w t e n show ?thesis
    by (simp add: list_ex_iff)
qed

text \<open>
  Counterexample to C10 as stated: the same inventory without target nodes;
  \<open>is_frequency_reached\<close> returns \<open>False\<close> and raises nothing.
\<close>

theorem is_frequency_reached_no_targets:
  "truthy (target_otap_sequence (rss_only_session None)) \<and>
   list_ex (\<lambda>(a, r). ev_otap_max (last (events r)) = None) (index (rss_only_session None)) \<and>
   is_frequency_reached (rss_only_session None) = Inr False"
  by (simp add: rss_only_session_eq truthy_def is_frequency_reached_def)

section \<open>Properties of the MySQL observer\<close>

lemma map_message_eq_spec_route:
  assumes "\<forall>c. isinstance message c = (kind_of message = Some c)"
  shows "map_message isinstance put mysql message = spec_route kind_of put mysql message"
proof (cases "kind_of message")
  case None
  with assms show ?thesis
    by (simp add: map_message_def spec_route_def split: sum.splits)
next
  case (Some k)
  with assms show ?thesis
    by (cases k) (simp_all add: map_message_def spec_route_def handler_table_def split: sum.splits)
qed

lemma handler_table_total: "dom (map_of handler_table) = UNIV"
proof -
  have "k \<in> dom (map_of handler_table)" for k
    by (cases k) (simp_all add: handler_table_def)
  then show ?thesis by auto
qed

lemma map_message_eq_first_match_route:
  "map_message isinstance put mysql message = first_match_route isinstance put mysql message"
  by (simp add: map_message_def first_match_route_def chain_order_def handler_table_def
        split: sum.splits)

lemma first_match_route_trace:
  "first_match_route isinstance record_write [] message =
     Inr (put_to_received_packets #
          (case find (isinstance message) chain_order of
             None \<Rightarrow> []
           | Some c \<Rightarrow> (case map_of handler_table c of None \<Rightarrow> [] | Some w \<Rightarrow> [w])))"
  by (simp add: first_match_route_def record_write_def split: option.splits)

text \<open>
  Claim C5, as amended. For every message and every connector \<open>_map_message\<close> issues
  the generic write first and, when that write does not raise, at most one
  kind-specific write: the one the table gives for the first class, in the order of
  \<open>chain_order\<close>, whose \<open>isinstance\<close> test the message passes; a message that passes no
  test gets the generic write only. The table covers all seven classes. When a message
  passes the test of exactly its own kind, this is the lookup of its kind in the table.
\<close>

theorem map_message_routes_first_match:
  "map_message isinstance put mysql message = first_match_route isinstance put mysql message \<and>
   map_message isinstance record_write [] message =
     Inr (put_to_received_packets #
          (case find (isinstance message) chain_order of
             None \<Rightarrow> []
           | Some c \<Rightarrow> (case map_of handler_table c of None \<Rightarrow> [] | Some w \<Rightarrow> [w]))) \<and>
   dom (map_of handler_table) = UNIV \<and>
   ((\<forall>c. isinstance message c = (kind_of message = Some c)) \<longrightarrow>
      map_message isinstance put mysql message = spec_route kind_of put mysql message)"
proof -
  have 1: "map_message isinstance put mysql message =
             first_match_route isinstance put mysql message"
    by (rule map_message_eq_first_match_route)
  have 2: "map_message isinstance record_write [] message =
     Inr (put_to_received_packets #
          (case find (isinstance message) chain_order of
             None \<Rightarrow> []
           | Some c \<Rightarrow> (case map_of handler_table c of None \<Rightarrow> [] | Some w \<Rightarrow> [w])))"
    by (simp only: map_message_eq_first_match_route first_match_route_trace)
  have 3: "map_message isinstance put mysql message = spec_route kind_of put mysql message"
    if "\<forall>c. isinstance message c = (kind_of message = Some c)"
    using that by (rule map_message_eq_spec_route)
  from 1 2 3 handler_table_total show ?thesis by blast
qed

text \<open>
  Witness for C5: a boot diagnostics message, which passes the test of its own class
  only, gets the generic write and then \<open>put_boot_diagnostics\<close>, as the table says; a
  message of no listed class gets the generic write only; the message of the derived
  class passes the test for \<open>DiagnosticsMessage\<close> first and gets \<open>put_diagnostics\<close>.
\<close>

theorem map_message_routes_first_match_witness:
  "(\<forall>c. example_isinstance Boot c = (example_kind Boot = Some c)) \<and>
   map_message example_isinstance record_write [] Boot =
     spec_route example_kind record_write [] Boot \<and>
   map_message example_isinstance record_write [] Boot =
     Inr [put_to_received_packets, put_boot_diagnostics] \<and>
   map_message example_isinstance record_write [] Unknown = Inr [put_to_received_packets] \<and>
   map_message example_isinstance record_write [] Derived =
     Inr [put_to_received_packets, put_diagnostics]"
proof -
  have h: "\<forall>c. example_isinstance Boot c = (example_kind Boot = Some c)"
    by (simp add: example_isinstance_def)
  note boot = map_message_routes_first_match[of example_isinstance record_write "[]" Boot
                example_kind]
  have t: "map_message example_isinstance record_write [] Boot =
             spec_route example_kind record_write [] Boot"
    using boot h by blast
  have b: "map_message example_isinstance record_write [] Boot =
             Inr [put_to_received_packets, put_boot_diagnostics]"
    using boot[THEN conjunct2, THEN conjunct1]
    by (simp add: example_isinstance_def chain_order_def handler_table_def)
  have u: "map_message example_isinstance record_write [] Unknown = Inr [put_to_received_packets]"
    using map_message_routes_first_match[of example_isinstance record_write "[]" Unknown
            example_kind, THEN conjunct2, THEN conjunct1]
    by (simp add: example_isinstance_def chain_order_def)
  have d: "map_message example_isinstance record_write [] Derived =
             Inr [put_to_received_packets, put_diagnostics]"
    using map_message_routes_first_match[of example_isinstance record_write "[]" Derived
            example_kind, THEN conjunct2, THEN conjunct1]
    by (simp add: example_isinstance_def chain_order_def handler_table_def)
  from h t b u d show ?thesis by simp
qed

text \<open>
  Counterexample to C5 as stated: the message of the derived class is a boot
  diagnostics item, for which the table of the specification gives
  \<open>put_boot_diagnostics\<close>; \<open>_map_message\<close> tests \<open>DiagnosticsMessage\<close> first and issues
  \<open>put_diagnostics\<close> instead.
\<close>

theorem map_message_chain_differs_from_table:
  "map_message example_isinstance record_write [] Derived =
     Inr [put_to_received_packets, put_diagnostics] \<and>
   spec_route example_kind record_write [] Derived =
     Inr [put_to_received_packets, put_boot_diagnostics] \<and>
   map_message example_isinstance record_write [] Derived \<noteq>
     spec_route example_kind record_write [] Derived"
  by (simp add: map_message_def spec_route_def record_write_def example_isinstance_def
        handler_table_def)

lemma spawn_workers_eq: "spawn_workers n = map (\<lambda>p. (p, None)) [1..<n]"
proof -
  have "fold (\<lambda>pseq workers. AList.update pseq (process_start pseq) workers) [a..<a + k] ws =
          ws @ map (\<lambda>p. (p, None)) [a..<a + k]"
    if "\<forall>p\<in>fst ` set ws. p < a" for a k ws
    using that
  proof (induction k arbitrary: a ws)
    case 0
    then show ?case by simp
  next
    case (Suc k)
    have new: "a \<notin> fst ` set ws" using Suc.prems by auto
    have upd: "AList.update a None ws = ws @ [(a, None)]"
      using new by (induction ws) auto
    have "[a..<a + Suc k] = a # [Suc a..<Suc a + k]"
      by (simp add: upt_conv_Cons)
    moreover have "fold (\<lambda>pseq workers. AList.update pseq (process_start pseq) workers)
        [Suc a..<Suc a + k] (ws @ [(a, None)]) =
        (ws @ [(a, None)]) @ map (\<lambda>p. (p, None)) [Suc a..<Suc a + k]"
      using Suc.prems by (intro Suc.IH) (auto simp: less_Suc_eq)
    ultimately show ?case
      by (simp add: process_start_def upd)
  qed
  from this[of "[]" 1 "n - 1"] show ?thesis
    by (cases "n = 0") (simp_all add: spawn_workers_def)
qed

text \<open>
  The same for every pool of at least one spawned worker, whatever the workers do.
\<close>

lemma supervisor_AttributeError:
  assumes "2 \<le> n_workers" and "\<not> set_elsewhere 0"
  shows "pool_supervise (Suc fuel) set_elsewhere is_alive n_workers =
           Some (Inl AttributeError, False)"
proof -
  from assms(1) have "[1..<n_workers] = 1 # [Suc 1..<n_workers]"
    by (simp add: upt_conv_Cons)
  then have "spawn_workers n_workers = (1, None) # map (\<lambda>p. (p, None)) [Suc 1..<n_workers]"
    by (simp add: spawn_workers_eq)
  with assms(2) show ?thesis
    by (simp add: pool_supervise_def)
qed

text \<open>
  Claim C6, evaluated where the code departs from it: three workers requested, so
  workers 1 and 2 are spawned; worker 1 is dead at every poll and nobody else sets
  \<open>exit_signal\<close>. The first liveness poll raises \<open>AttributeError\<close> (the dict holds \<open>None\<close>
  for every worker) and \<open>exit_signal\<close> has not been set.
\<close>

theorem supervisor_never_detects_dead_worker:
  "pool_supervise 3 (\<lambda>k. False) (\<lambda>k p. p \<noteq> 1) 3 = Some (Inl AttributeError, False)"
  by (simp add: pool_supervise_def spawn_workers_def process_start_def upt_rec numeral_3_eq_3)

end
